theory Spec2Isabelle
  imports Complex_Main
begin

unbundle bit_operations_syntax

section \<open>Python values used by the backoff engine\<close>

text \<open>
  Python integers are unbounded: they are \<open>int\<close>. For a positive or negative divisor
  Python's \<open>//\<close> and \<open>%\<close> round towards minus infinity, as \<open>div\<close> and \<open>mod\<close> do
  on \<open>int\<close>; \<open>n | 1\<close> and \<open>n >> 3\<close> act on the infinite two's complement form, as
  \<open>OR\<close> and \<open>drop_bit\<close> do. A division or remainder by zero raises.
\<close>

datatype py_error = ValueError | OverflowError | ZeroDivisionError

definition py_mod :: "int \<Rightarrow> int \<Rightarrow> py_error + int" where
  "py_mod a m = (if m = 0 then Inl ZeroDivisionError else Inr (a mod m))"

section \<open>Python floats\<close>

text \<open>
  A Python float is an IEEE-754 binary64 value: an infinity, a NaN, or a finite number
  \<open>m * 2^e\<close> kept as the pair of integers \<open>m\<close> and \<open>e\<close>. The sign of zero is not
  kept: no operation of the engine observes it. Every operation computes the exact
  result as a ratio of integers and rounds it to the nearest binary64 value, ties to even.
\<close>

datatype pyfloat = Finite int int | PosInf | NegInf | NaN

text \<open>The number of binary digits of a positive integer.\<close>

function bits :: "int \<Rightarrow> int" where
  "bits n = (if n \<le> 0 then 0 else 1 + bits (n div 2))"
  by pat_completeness auto
termination
  by (relation "measure nat") auto

declare bits.simps [simp del]

text \<open>The unique representation of a finite value: an odd mantissa, or zero.\<close>

function canonical :: "int \<Rightarrow> int \<Rightarrow> pyfloat" where
  "canonical m e =
     (if m = 0 then Finite 0 0
      else if even m then canonical (m div 2) (e + 1)
      else Finite m e)"
  by pat_completeness auto
termination
  by (relation "measure (\<lambda>(m, e). nat \<bar>m\<bar>)") auto

declare canonical.simps [simp del]

text \<open>The integer nearest to \<open>p / q\<close> for \<open>q > 0\<close>, a tie going to the even neighbour.\<close>

definition round_half_even_div :: "int \<Rightarrow> int \<Rightarrow> int" where
  "round_half_even_div p q =
     (if 2 * (p mod q) < q then p div q
      else if q < 2 * (p mod q) then p div q + 1
      else if even (p div q) then p div q
      else p div q + 1)"

text \<open>\<open>scale_le q d p\<close> is \<open>q * 2^d \<le> p\<close> for an integer \<open>d\<close> of either sign.\<close>

definition scale_le :: "int \<Rightarrow> int \<Rightarrow> int \<Rightarrow> bool" where
  "scale_le q d p = (if 0 \<le> d then q * 2 ^ nat d \<le> p else q \<le> p * 2 ^ nat (- d))"

definition ilog2_pick :: "int \<Rightarrow> int \<Rightarrow> int \<Rightarrow> int" where
  "ilog2_pick p q d = (if scale_le q d p then d else d - 1)"

text \<open>The binary exponent \<open>\<lfloor>log2 (p / q)\<rfloor>\<close> of a positive ratio.\<close>

definition ilog2_ratio :: "int \<Rightarrow> int \<Rightarrow> int" where
  "ilog2_ratio p q = ilog2_pick p q (bits p - bits q)"

text \<open>The rounded mantissa \<open>m\<close> at the exponent \<open>t\<close>: beyond the largest binary64 value
  the result is an infinity.\<close>

definition pack :: "int \<Rightarrow> int \<Rightarrow> pyfloat" where
  "pack m t =
     (if 0 \<le> t \<and> 2 ^ 1024 \<le> m * 2 ^ nat t then PosInf
      else if 0 \<le> t \<and> m * 2 ^ nat t \<le> - (2 ^ 1024) then NegInf
      else canonical m t)"

definition round_at :: "int \<Rightarrow> int \<Rightarrow> int \<Rightarrow> pyfloat" where
  "round_at p q t =
     (if 0 \<le> t then pack (round_half_even_div p (q * 2 ^ nat t)) t
      else pack (round_half_even_div (p * 2 ^ nat (- t)) q) t)"

text \<open>
  \<open>fl_ratio p q\<close> is the binary64 value nearest to \<open>p / q\<close> (\<open>q > 0\<close>): 53 significant
  bits from the binary exponent of the ratio on, and the fixed exponent \<open>-1074\<close> of the
  subnormal range below \<open>2^-1022\<close>.
\<close>

definition fl_ratio :: "int \<Rightarrow> int \<Rightarrow> pyfloat" where
  "fl_ratio p q =
     (if p = 0 then Finite 0 0
      else round_at p q (max (ilog2_ratio \<bar>p\<bar> q) (- 1022) - 52))"

definition round_dyadic :: "int \<Rightarrow> int \<Rightarrow> pyfloat" where
  "round_dyadic m e = (if 0 \<le> e then fl_ratio (m * 2 ^ nat e) 1 else fl_ratio m (2 ^ nat (- e)))"

text \<open>
  The rational value of the finite float with mantissa \<open>m\<close> and exponent \<open>e\<close>, and the
  first magnitude beyond the binary64 range.
\<close>

definition float_value :: "int \<Rightarrow> int \<Rightarrow> rat" where
  "float_value m e = of_int m * 2 powi e"

definition overflow_threshold :: rat where
  "overflow_threshold = 2 ^ 1024"

fun float_sign :: "pyfloat \<Rightarrow> int" where
  "float_sign (Finite m e) = sgn m"
| "float_sign PosInf = 1"
| "float_sign NegInf = - 1"
| "float_sign NaN = 0"

text \<open>IEEE multiplication: an infinity times zero is a NaN.\<close>

definition float_mul :: "pyfloat \<Rightarrow> pyfloat \<Rightarrow> pyfloat" where
  "float_mul x y =
     (case (x, y) of
        (Finite m1 e1, Finite m2 e2) \<Rightarrow> round_dyadic (m1 * m2) (e1 + e2)
      | _ \<Rightarrow>
          if x = NaN \<or> y = NaN then NaN
          else if float_sign x * float_sign y = 0 then NaN
          else if 0 < float_sign x * float_sign y then PosInf
          else NegInf)"

text \<open>IEEE addition: the sum of the two infinities is a NaN.\<close>

definition float_add :: "pyfloat \<Rightarrow> pyfloat \<Rightarrow> pyfloat" where
  "float_add x y =
     (case (x, y) of
        (Finite m1 e1, Finite m2 e2) \<Rightarrow>
          round_dyadic (m1 * 2 ^ nat (e1 - min e1 e2) + m2 * 2 ^ nat (e2 - min e1 e2)) (min e1 e2)
      | (Finite m1 e1, _) \<Rightarrow> y
      | (_, Finite m2 e2) \<Rightarrow> x
      | _ \<Rightarrow> if x = NaN \<or> y = NaN \<or> x \<noteq> y then NaN else x)"

text \<open>Python's \<open>x / y\<close> on floats: a zero divisor raises before anything else.\<close>

definition float_div :: "pyfloat \<Rightarrow> pyfloat \<Rightarrow> py_error + pyfloat" where
  "float_div x y =
     (if float_sign y = 0 \<and> y \<noteq> NaN then Inl ZeroDivisionError
      else case (x, y) of
        (Finite m1 e1, Finite m2 e2) \<Rightarrow>
          Inr (fl_ratio (sgn m2 * m1 * 2 ^ nat (e1 - e2)) (\<bar>m2\<bar> * 2 ^ nat (e2 - e1)))
      | (Finite m1 e1, _) \<Rightarrow> Inr (if y = NaN then NaN else Finite 0 0)
      | (_, Finite m2 e2) \<Rightarrow>
          Inr (if x = NaN then NaN else if 0 < float_sign x * float_sign y then PosInf else NegInf)
      | _ \<Rightarrow> Inr NaN)"

text \<open>The comparison \<open>x < y\<close> of two floats; false when one is a NaN.\<close>

definition float_lt :: "pyfloat \<Rightarrow> pyfloat \<Rightarrow> bool" where
  "float_lt x y =
     (case (x, y) of
        (Finite m1 e1, Finite m2 e2) \<Rightarrow>
          m1 * 2 ^ nat (e1 - min e1 e2) < m2 * 2 ^ nat (e2 - min e1 e2)
      | _ \<Rightarrow> x \<noteq> NaN \<and> y \<noteq> NaN \<and> x \<noteq> y \<and> (x = NegInf \<or> y = PosInf))"

text \<open>Python's \<open>min(a, b)\<close>: the second argument only when it is smaller.\<close>

definition float_min :: "pyfloat \<Rightarrow> pyfloat \<Rightarrow> pyfloat" where
  "float_min a b = (if float_lt b a then b else a)"

text \<open>The comparison \<open>x <= n\<close> of a float with an integer; false for a NaN.\<close>

fun float_le_int :: "pyfloat \<Rightarrow> int \<Rightarrow> bool" where
  "float_le_int (Finite m e) n = (if 0 \<le> e then m * 2 ^ nat e \<le> n else m \<le> n * 2 ^ nat (- e))"
| "float_le_int PosInf n = False"
| "float_le_int NegInf n = True"
| "float_le_int NaN n = False"

text \<open>The conversion of an integer operand to a float raises when the integer is too
  large.\<close>

definition int_to_float :: "int \<Rightarrow> py_error + pyfloat" where
  "int_to_float n =
     (case fl_ratio n 1 of
        PosInf \<Rightarrow> Inl OverflowError
      | NegInf \<Rightarrow> Inl OverflowError
      | f \<Rightarrow> Inr f)"

text \<open>\<open>round(x)\<close> of a float: the nearest integer, ties to even; it raises for an
  infinity and for a NaN.\<close>

fun py_round :: "pyfloat \<Rightarrow> py_error + int" where
  "py_round (Finite m e) =
     Inr (if 0 \<le> e then m * 2 ^ nat e else round_half_even_div m (2 ^ nat (- e)))"
| "py_round PosInf = Inl OverflowError"
| "py_round NegInf = Inl OverflowError"
| "py_round NaN = Inl ValueError"

text \<open>A number is an \<open>int\<close> or a \<open>float\<close>. \<open>2 ** k\<close> is an integer for \<open>k \<ge> 0\<close> and
  the float \<open>2.0 ** float(k)\<close> for a negative \<open>k\<close>, which underflows to zero. The memory
  that the integer \<open>2 ** k\<close> takes is not modelled.\<close>

datatype pynum = PyInt int | PyFloat pyfloat

definition pow_2 :: "int \<Rightarrow> py_error + pynum" where
  "pow_2 k =
     (if 0 \<le> k then Inr (PyInt (2 ^ nat k))
      else case int_to_float k of
             Inl e \<Rightarrow> Inl e
           | Inr kf \<Rightarrow> Inr (PyFloat (fl_ratio 1 (2 ^ nat (- k)))))"

text \<open>\<open>x * n\<close> for a float \<open>x\<close>: an integer operand is converted first.\<close>

fun float_mul_num :: "pyfloat \<Rightarrow> pynum \<Rightarrow> py_error + pyfloat" where
  "float_mul_num x (PyInt n) =
     (case int_to_float n of Inl e \<Rightarrow> Inl e | Inr y \<Rightarrow> Inr (float_mul x y))"
| "float_mul_num x (PyFloat y) = Inr (float_mul x y)"

text \<open>\<open>n / y\<close> for an integer \<open>n\<close> and a float \<open>y\<close>.\<close>

definition int_truediv_float :: "int \<Rightarrow> pyfloat \<Rightarrow> py_error + pyfloat" where
  "int_truediv_float n y =
     (case int_to_float n of Inl e \<Rightarrow> Inl e | Inr x \<Rightarrow> float_div x y)"

section \<open>The Collatz iterator (core.py)\<close>

definition collatz_step :: "int \<Rightarrow> int" where
  "collatz_step n = (if n mod 2 = 0 then n div 2 else (3 * n + 1) div 2)"

text \<open>The loop \<open>for _ in range(k): n = collatz_step(n)\<close>, with the number of rounds left.\<close>

fun collatz_loop :: "nat \<Rightarrow> int \<Rightarrow> int" where
  "collatz_loop 0 n = n"
| "collatz_loop (Suc i) n = collatz_loop i (collatz_step n)"

text \<open>\<open>range(k)\<close> is empty for \<open>k \<le> 0\<close>, so the loop runs \<open>nat k\<close> times.\<close>

definition collatz_iter :: "int \<Rightarrow> int \<Rightarrow> int" where
  "collatz_iter seed k = collatz_loop (nat k) seed"

section \<open>Configuration and engine (core.py)\<close>

record BackoffConfig =
  base_seconds :: pyfloat
  slot_ms :: int
  slots_M :: int
  collatz_seed :: int
  cap_seconds :: pyfloat

definition validate :: "BackoffConfig \<Rightarrow> py_error + unit" where
  "validate c =
     (if float_le_int (base_seconds c) 0 then Inl ValueError
      else if slot_ms c \<le> 0 then Inl ValueError
      else if slots_M c \<le> 1 then Inl ValueError
      else if float_le_int (cap_seconds c) 0 then Inl ValueError
      else Inr ())"

text \<open>The engine object: its only attribute is the configuration.\<close>

datatype engine = Engine (cfg: BackoffConfig)

text \<open>\<open>CollatzBackoff.__init__\<close>: validate, then keep the configuration.\<close>

definition CollatzBackoff :: "BackoffConfig \<Rightarrow> py_error + engine" where
  "CollatzBackoff c = (case validate c of Inl e \<Rightarrow> Inl e | Inr u \<Rightarrow> Inr (Engine c))"

text \<open>
  The defaults of the dataclass: \<open>base_seconds = 0.05\<close> (the binary64 value nearest to
  1/20, \<open>0x1.999999999999ap-5\<close>, that is \<open>3602879701896397 * 2^-56\<close>), \<open>slot_ms = 1\<close>,
  \<open>slots_M = 1024\<close>, \<open>collatz_seed = 27\<close>, \<open>cap_seconds = 10.0\<close> (\<open>5 * 2^1\<close>).
\<close>

definition default_config :: BackoffConfig where
  "default_config =
     \<lparr>base_seconds = Finite 3602879701896397 (- 56), slot_ms = 1,
      slots_M = 1024, collatz_seed = 27, cap_seconds = Finite 5 1\<rparr>"

text \<open>Configurations used as test points: the defaults with another modulus or seed.\<close>

definition config_M8 :: BackoffConfig where
  "config_M8 = default_config\<lparr>slots_M := 8\<rparr>"

definition config_M32 :: BackoffConfig where
  "config_M32 = default_config\<lparr>slots_M := 32\<rparr>"

definition config_M6 :: BackoffConfig where
  "config_M6 = default_config\<lparr>slots_M := 6, collatz_seed := 6\<rparr>"

definition affine_params :: "engine \<Rightarrow> int \<Rightarrow> py_error + int \<times> int" where
  "affine_params self k =
     (let M = slots_M (cfg self);
          n = collatz_iter (collatz_seed (cfg self)) (k + 1)
      in case py_mod (n OR 1) M of
           Inl e \<Rightarrow> Inl e
         | Inr a0 \<Rightarrow>
             let a1 = (if a0 = 0 then 1 else a0)
             in case py_mod (drop_bit 3 n) M of
                  Inl e \<Rightarrow> Inl e
                | Inr b \<Rightarrow>
                    let a2 = (if gcd a1 M \<noteq> 1 then 1 else a1)
                    in Inr (a2, b))"

definition offset_slot :: "engine \<Rightarrow> int \<Rightarrow> int \<Rightarrow> py_error + int" where
  "offset_slot self node_id retry_k =
     (let M = slots_M (cfg self)
      in case affine_params self retry_k of
           Inl e \<Rightarrow> Inl e
         | Inr (a, b) \<Rightarrow> py_mod (a * node_id + b) M)"

text \<open>
  \<open>wait_micros\<close> computes three integers in this order, each of which can raise:
  \<open>base_us = int(round(base_seconds * (2 ** retry_k) * 1_000_000))\<close>, the jitter from
  \<open>offset_slot\<close>, and \<open>cap_us = int(round(cap_seconds * 1_000_000))\<close>.
\<close>

definition base_us :: "engine \<Rightarrow> int \<Rightarrow> py_error + int" where
  "base_us self retry_k =
     (case pow_2 retry_k of
        Inl e \<Rightarrow> Inl e
      | Inr p \<Rightarrow>
          (case float_mul_num (base_seconds (cfg self)) p of
             Inl e \<Rightarrow> Inl e
           | Inr x \<Rightarrow>
               (case float_mul_num x (PyInt 1000000) of
                  Inl e \<Rightarrow> Inl e
                | Inr y \<Rightarrow> py_round y)))"

definition cap_us :: "engine \<Rightarrow> py_error + int" where
  "cap_us self =
     (case float_mul_num (cap_seconds (cfg self)) (PyInt 1000000) of
        Inl e \<Rightarrow> Inl e
      | Inr z \<Rightarrow> py_round z)"

definition wait_micros :: "engine \<Rightarrow> int \<Rightarrow> int \<Rightarrow> py_error + int" where
  "wait_micros self node_id retry_k =
     (case base_us self retry_k of
        Inl e \<Rightarrow> Inl e
      | Inr b \<Rightarrow>
          (case offset_slot self node_id retry_k of
             Inl e \<Rightarrow> Inl e
           | Inr slot \<Rightarrow>
               (case cap_us self of
                  Inl e \<Rightarrow> Inl e
                | Inr c \<Rightarrow> Inr (min c (b + slot * slot_ms (cfg self) * 1000)))))"

text \<open>\<open>wait_seconds\<close> divides the integer by the float \<open>1_000_000.0\<close>, which is
  \<open>15625 * 2^6\<close>.\<close>

definition wait_seconds :: "engine \<Rightarrow> int \<Rightarrow> int \<Rightarrow> py_error + pyfloat" where
  "wait_seconds self node_id retry_k =
     (case wait_micros self node_id retry_k of
        Inl e \<Rightarrow> Inl e
      | Inr us \<Rightarrow> int_truediv_float us (Finite 15625 6))"

definition collatz_seeded_backoff_seconds :: "int \<Rightarrow> int \<Rightarrow> BackoffConfig \<Rightarrow> py_error + pyfloat" where
  "collatz_seeded_backoff_seconds node_id retry_k c =
     (case CollatzBackoff c of
        Inl e \<Rightarrow> Inl e
      | Inr self \<Rightarrow> wait_seconds self node_id retry_k)"

section \<open>The module-level implementation (collatz_backoff.py)\<close>

text \<open>
  The top-level file has its own copies of \<open>collatz_step\<close> and \<open>collatz_iter\<close>, the same
  text as in core.py, and a configuration class with the same five fields and no
  \<open>validate\<close>. Its functions carry the prefix \<open>legacy\<close> where a name is used twice.
\<close>

definition affine_params_from_collatz :: "int \<Rightarrow> int \<Rightarrow> int \<Rightarrow> py_error + int \<times> int" where
  "affine_params_from_collatz k seed M =
     (let n = collatz_iter seed (k + 1)
      in case py_mod (n OR 1) M of
           Inl e \<Rightarrow> Inl e
         | Inr a0 \<Rightarrow>
             let a1 = (if a0 = 0 then 1 else a0)
             in case py_mod (drop_bit 3 n) M of
                  Inl e \<Rightarrow> Inl e
                | Inr b \<Rightarrow> Inr (a1, b))"

definition collatz_perm_offset :: "int \<Rightarrow> int \<Rightarrow> int \<Rightarrow> int \<Rightarrow> py_error + int" where
  "collatz_perm_offset node_id k M seed =
     (case affine_params_from_collatz k seed M of
        Inl e \<Rightarrow> Inl e
      | Inr (a, b) \<Rightarrow> py_mod (a * node_id + b) M)"

text \<open>
  \<open>min(cap, base * 2^k + offset * slot_ms / 1000.0)\<close>, all in floating point; \<open>1000.0\<close> is
  \<open>125 * 2^3\<close>.
\<close>

definition legacy_collatz_seeded_backoff_seconds :: "int \<Rightarrow> int \<Rightarrow> BackoffConfig \<Rightarrow> py_error + pyfloat" where
  "legacy_collatz_seeded_backoff_seconds node_id retry_k c =
     (case collatz_perm_offset node_id retry_k (slots_M c) (collatz_seed c) of
        Inl e \<Rightarrow> Inl e
      | Inr offset \<Rightarrow>
          (case int_truediv_float (offset * slot_ms c) (Finite 125 3) of
             Inl e \<Rightarrow> Inl e
           | Inr jitter \<Rightarrow>
               (case pow_2 retry_k of
                  Inl e \<Rightarrow> Inl e
                | Inr p \<Rightarrow>
                    (case float_mul_num (base_seconds c) p of
                       Inl e \<Rightarrow> Inl e
                     | Inr x \<Rightarrow> Inr (float_min (cap_seconds c) (float_add x jitter))))))"

section \<open>The reference definitions of the specification\<close>

text \<open>
  The specification's step function and iterator, in its words: \<open>step(n) = n/2\<close> if n is
  even, else \<open>(3n+1)/2\<close>; \<open>iterate\<close> applies \<open>step\<close> exactly k times.
\<close>

definition spec_step :: "int \<Rightarrow> int" where
  "spec_step n = (if even n then n div 2 else (3 * n + 1) div 2)"

definition spec_iterate :: "int \<Rightarrow> nat \<Rightarrow> int" where
  "spec_iterate seed k = (spec_step ^^ k) seed"

text \<open>
  The specification's derivation of the step parameters: \<open>n = iterate(seed, k + 1)\<close>,
  \<open>a = (n | 1) mod M\<close> forced to 1 when it is 0, \<open>b = (n >> 3) mod M\<close>, and \<open>a\<close>
  replaced by 1 when \<open>gcd(a, M)\<close> is not 1.
\<close>

definition spec_params :: "int \<Rightarrow> int \<Rightarrow> nat \<Rightarrow> int \<times> int" where
  "spec_params M seed k =
     (let n = spec_iterate seed (k + 1);
          a = (n OR 1) mod M;
          a' = (if a = 0 then 1 else a);
          b = (n div 2 ^ 3) mod M
      in (if gcd a' M = 1 then a' else 1, b))"

section \<open>Basic facts\<close>

lemma collatz_step_spec: "collatz_step n = spec_step n"
  by (simp add: collatz_step_def spec_step_def even_iff_mod_2_eq_zero)

lemma collatz_loop_funpow: "collatz_loop i n = (collatz_step ^^ i) n"
  by (induction i arbitrary: n) (simp_all add: funpow_swap1)

lemma collatz_loop_zero: "collatz_loop i 0 = 0"
  by (induction i) (simp_all add: collatz_step_def)

lemma validate_Inr:
  "validate c = Inr u \<longleftrightarrow>
     \<not> float_le_int (base_seconds c) 0 \<and> 0 < slot_ms c \<and> 1 < slots_M c
       \<and> \<not> float_le_int (cap_seconds c) 0"
  by (auto simp: validate_def)

lemma CollatzBackoff_Inr:
  "CollatzBackoff c = Inr eng \<longleftrightarrow> validate c = Inr () \<and> eng = Engine c"
  by (auto simp: CollatzBackoff_def split: sum.splits)

lemma CollatzBackoff_slots:
  assumes "CollatzBackoff c = Inr eng"
  shows "1 < slots_M (cfg eng)" and "0 < slot_ms (cfg eng)" and "cfg eng = c"
  using assms by (auto simp: CollatzBackoff_Inr validate_Inr)

text \<open>With a modulus above 1 the parameters are computed without an error.\<close>

lemma affine_params_value:
  assumes "1 < slots_M (cfg self)"
  shows "affine_params self k =
     Inr (let M = slots_M (cfg self);
              n = collatz_iter (collatz_seed (cfg self)) (k + 1);
              a0 = (n OR 1) mod M;
              a1 = (if a0 = 0 then 1 else a0)
          in (if gcd a1 M \<noteq> 1 then 1 else a1, drop_bit 3 n mod M))"
  using assms by (simp add: affine_params_def py_mod_def Let_def)

lemma affine_params_total:
  assumes "1 < slots_M (cfg self)"
  shows "\<exists>a b. affine_params self k = Inr (a, b)"
proof -
  obtain p where "affine_params self k = Inr p"
    using affine_params_value [OF assms] by blast
  then show ?thesis
    by (cases p) auto
qed

lemma affine_params_range:
  assumes "1 < slots_M (cfg self)" and "affine_params self k = Inr (a, b)"
  shows "1 \<le> a" and "a < slots_M (cfg self)" and "0 \<le> b" and "b < slots_M (cfg self)"
    and "gcd a (slots_M (cfg self)) = 1"
proof -
  let ?M = "slots_M (cfg self)"
  let ?n = "collatz_iter (collatz_seed (cfg self)) (k + 1)"
  let ?a0 = "(?n OR 1) mod ?M"
  let ?a1 = "if ?a0 = 0 then 1 else ?a0"
  have ab: "a = (if gcd ?a1 ?M \<noteq> 1 then 1 else ?a1)" "b = drop_bit 3 ?n mod ?M"
    using assms by (simp_all add: affine_params_value Let_def)
  have a0: "0 \<le> ?a0" "?a0 < ?M"
    using assms(1) by simp_all
  have a1: "1 \<le> ?a1" "?a1 < ?M"
  proof -
    show "1 \<le> ?a1"
    proof (cases "?a0 = 0")
      case True
      then show ?thesis by simp
    next
      case False
      with a0(1) have "1 \<le> ?a0" by linarith
      with False show ?thesis by simp
    qed
    show "?a1 < ?M"
      using a0(2) assms(1) by (cases "?a0 = 0") simp_all
  qed
  show "1 \<le> a" using ab(1) a1 by auto
  show "a < ?M" using ab(1) a1 assms(1) by auto
  show "0 \<le> b" using ab(2) assms(1) by simp
  show "b < ?M" using ab(2) assms(1) by simp
  show "gcd a ?M = 1" using ab(1) by auto
qed

lemma offset_slot_value:
  assumes "1 < slots_M (cfg self)" and "affine_params self k = Inr (a, b)"
  shows "offset_slot self i k = Inr ((a * i + b) mod slots_M (cfg self))"
  using assms by (simp add: offset_slot_def py_mod_def)

text \<open>An affine map with a multiplier coprime to the modulus separates residues.\<close>

lemma affine_mod_inj:
  fixes a b M i j :: int
  assumes "gcd a M = 1" and "0 < M"
    and "(a * i + b) mod M = (a * j + b) mod M"
  shows "i mod M = j mod M"
proof -
  have "M dvd (a * i + b) - (a * j + b)"
    using assms(3) by (simp add: mod_eq_dvd_iff)
  then have "M dvd a * (i - j)"
    by (simp add: algebra_simps)
  moreover have "coprime M a"
    using assms(1) by (simp add: coprime_iff_gcd_eq_1 gcd.commute)
  ultimately have "M dvd i - j"
    by (simp add: coprime_dvd_mult_right_iff)
  then show ?thesis
    by (simp add: mod_eq_dvd_iff)
qed

text \<open>Within capacity the slots of distinct ids differ.\<close>

lemma offset_slot_inj:
  assumes M: "1 < slots_M (cfg eng)" and n: "n \<le> slots_M (cfg eng)"
    and i: "0 \<le> i" "i < n" and j: "0 \<le> j" "j < n"
    and eq: "offset_slot eng i k = offset_slot eng j k"
  shows "i = j"
proof -
  let ?M = "slots_M (cfg eng)"
  obtain a b where ab: "affine_params eng k = Inr (a, b)"
    using affine_params_total [OF M] by blast
  have g: "gcd a ?M = 1"
    using affine_params_range(5) [OF M ab] .
  from eq have "(a * i + b) mod ?M = (a * j + b) mod ?M"
    by (simp add: offset_slot_value [OF M ab])
  then have "i mod ?M = j mod ?M"
    using g M by (intro affine_mod_inj [of a ?M i b j]) simp_all
  moreover have "i mod ?M = i" "j mod ?M = j"
    using i j n by simp_all
  ultimately show ?thesis by simp
qed

lemma offset_slot_total:
  assumes "1 < slots_M (cfg eng)"
  shows "\<exists>s. offset_slot eng i k = Inr s \<and> 0 \<le> s \<and> s < slots_M (cfg eng)"
proof -
  obtain a b where ab: "affine_params eng k = Inr (a, b)"
    using affine_params_total [OF assms] by blast
  show ?thesis
    using assms by (simp add: offset_slot_value [OF assms ab])
qed

section \<open>Signs of the float operations\<close>

lemma round_half_even_div_nonneg:
  assumes "0 \<le> p" and "0 < q"
  shows "0 \<le> round_half_even_div p q"
proof -
  have "0 \<le> p div q"
    using assms by (simp add: pos_imp_zdiv_nonneg_iff)
  then show ?thesis
    by (simp add: round_half_even_div_def)
qed

lemma canonical_sign: "0 \<le> m \<Longrightarrow> 0 \<le> float_sign (canonical m e)"
proof (induction m e rule: canonical.induct)
  case (1 m e)
  show ?case
  proof (cases "m = 0")
    case True
    then show ?thesis by (simp add: canonical.simps)
  next
    case nz: False
    show ?thesis
    proof (cases "even m")
      case True
      have "0 \<le> m div 2" using "1.prems" by simp
      with "1.IH" [OF nz True] have "0 \<le> float_sign (canonical (m div 2) (e + 1))" .
      with nz True show ?thesis by (subst canonical.simps) simp
    next
      case False
      with nz "1.prems" show ?thesis by (subst canonical.simps) simp
    qed
  qed
qed

lemma pack_sign:
  assumes "0 \<le> m"
  shows "0 \<le> float_sign (pack m t)"
proof -
  have "0 \<le> m * 2 ^ nat t"
    using assms by simp
  moreover have "- (2 ^ 1024) < (0::int)"
    by simp
  ultimately have "\<not> m * 2 ^ nat t \<le> - (2 ^ 1024)"
    by linarith
  then show ?thesis
    unfolding pack_def using assms by (simp add: canonical_sign del: power_numeral)
qed

lemma fl_ratio_sign:
  assumes "0 \<le> p" and "0 < q"
  shows "0 \<le> float_sign (fl_ratio p q)"
  using assms
  by (simp add: fl_ratio_def round_at_def pack_sign round_half_even_div_nonneg)

lemma round_dyadic_sign: "0 \<le> m \<Longrightarrow> 0 \<le> float_sign (round_dyadic m e)"
  by (simp add: round_dyadic_def fl_ratio_sign)

lemma sgn_int_nonneg: "0 \<le> sgn (m::int) \<longleftrightarrow> 0 \<le> m"
  by (simp add: sgn_if)

lemma float_mul_sign:
  assumes "0 \<le> float_sign x" and "0 \<le> float_sign y"
  shows "0 \<le> float_sign (float_mul x y)"
proof (cases "\<exists>m1 e1 m2 e2. x = Finite m1 e1 \<and> y = Finite m2 e2")
  case True
  then obtain m1 e1 m2 e2 where xy: "x = Finite m1 e1" "y = Finite m2 e2"
    by blast
  with assms have "0 \<le> m1 * m2"
    by (simp add: sgn_int_nonneg)
  then show ?thesis
    by (simp add: xy float_mul_def round_dyadic_sign)
next
  case False
  then have "float_mul x y =
      (if x = NaN \<or> y = NaN then NaN
       else if float_sign x * float_sign y = 0 then NaN
       else if 0 < float_sign x * float_sign y then PosInf else NegInf)"
    by (cases x; cases y) (simp_all add: float_mul_def)
  moreover have "0 \<le> float_sign x * float_sign y"
    using assms by simp
  ultimately show ?thesis
    by (simp add: less_le)
qed

lemma int_to_float_sign:
  assumes "int_to_float n = Inr f" and "0 \<le> n"
  shows "0 \<le> float_sign f"
proof -
  have "f = fl_ratio n 1"
    using assms(1) by (auto simp: int_to_float_def split: pyfloat.splits)
  then show ?thesis
    using assms(2) by (simp add: fl_ratio_sign)
qed

lemma py_round_sign:
  assumes "py_round f = Inr v" and "0 \<le> float_sign f"
  shows "0 \<le> v"
proof (cases f)
  case (Finite m e)
  with assms(2) have "0 \<le> m"
    by (simp add: sgn_int_nonneg)
  then show ?thesis
    using assms(1) Finite by (auto simp: round_half_even_div_nonneg)
qed (use assms in simp_all)

lemma float_mul_num_sign:
  assumes "float_mul_num x p = Inr y" and "0 \<le> float_sign x"
    and "case p of PyInt n \<Rightarrow> 0 \<le> n | PyFloat f \<Rightarrow> 0 \<le> float_sign f"
  shows "0 \<le> float_sign y"
proof (cases p)
  case (PyInt n)
  with assms(1) obtain g where g: "int_to_float n = Inr g" "y = float_mul x g"
    by (auto split: sum.splits)
  with assms(3) PyInt have "0 \<le> float_sign g"
    by (simp add: int_to_float_sign)
  with g(2) assms(2) show ?thesis
    by (simp add: float_mul_sign)
next
  case (PyFloat f)
  with assms show ?thesis
    by (auto simp: float_mul_sign)
qed

lemma pow_2_sign:
  assumes "pow_2 k = Inr p"
  shows "case p of PyInt n \<Rightarrow> 0 \<le> n | PyFloat f \<Rightarrow> 0 \<le> float_sign f"
  using assms
  by (auto simp: pow_2_def fl_ratio_sign split: if_splits sum.splits)

lemma not_le_zero_sign: "\<not> float_le_int f 0 \<Longrightarrow> 0 \<le> float_sign f"
  by (cases f) (auto simp: sgn_int_nonneg mult_le_0_iff not_le split: if_splits)

lemma base_us_nonneg:
  assumes "\<not> float_le_int (base_seconds (cfg eng)) 0" and "base_us eng k = Inr b"
  shows "0 \<le> b"
proof -
  from assms(2) obtain p x y where
    p: "pow_2 k = Inr p" and x: "float_mul_num (base_seconds (cfg eng)) p = Inr x"
    and y: "float_mul_num x (PyInt 1000000) = Inr y" and b: "py_round y = Inr b"
    by (auto simp: base_us_def split: sum.splits)
  have "0 \<le> float_sign x"
    using float_mul_num_sign [OF x not_le_zero_sign [OF assms(1)] pow_2_sign [OF p]] .
  then have "0 \<le> float_sign y"
    using float_mul_num_sign [OF y] by simp
  then show ?thesis
    using py_round_sign [OF b] by simp
qed

lemma cap_us_nonneg:
  assumes "\<not> float_le_int (cap_seconds (cfg eng)) 0" and "cap_us eng = Inr c"
  shows "0 \<le> c"
proof -
  from assms(2) obtain z where
    z: "float_mul_num (cap_seconds (cfg eng)) (PyInt 1000000) = Inr z" and c: "py_round z = Inr c"
    by (auto simp: cap_us_def split: sum.splits)
  have "0 \<le> float_sign z"
    using float_mul_num_sign [OF z not_le_zero_sign [OF assms(1)]] by simp
  then show ?thesis
    using py_round_sign [OF c] by simp
qed

section \<open>The wait and the module-level functions\<close>

lemma wait_micros_value:
  assumes "base_us eng k = Inr b" and "offset_slot eng i k = Inr s" and "cap_us eng = Inr cu"
  shows "wait_micros eng i k = Inr (min cu (b + s * slot_ms (cfg eng) * 1000))"
  using assms by (simp add: wait_micros_def)

lemma wait_micros_fails_iff:
  assumes "1 < slots_M (cfg eng)"
  shows "(\<exists>e. wait_micros eng i k = Inl e) \<longleftrightarrow>
         (\<exists>e. base_us eng k = Inl e) \<or> (\<exists>e. cap_us eng = Inl e)"
proof -
  obtain s where "offset_slot eng i k = Inr s"
    using offset_slot_total [OF assms] by blast
  then show ?thesis
    by (auto simp: wait_micros_def split: sum.splits)
qed

lemma odd_forced_residue:
  fixes n :: int
  assumes "0 < j"
  shows "odd ((n OR 1) mod 2 ^ j)"
proof -
  have "odd (n OR 1)"
    by (simp add: even_or_iff)
  moreover have "(2::int) dvd 2 ^ j"
    using assms by (simp add: dvd_power)
  ultimately show ?thesis
    by (simp add: dvd_mod_iff)
qed

lemma legacy_params_agree:
  assumes M: "1 < slots_M (cfg eng)"
    and l: "affine_params_from_collatz k (collatz_seed (cfg eng)) (slots_M (cfg eng)) = Inr (a, b)"
    and g: "gcd a (slots_M (cfg eng)) = 1"
  shows "affine_params eng k = Inr (a, b)"
  using assms
  by (auto simp: affine_params_from_collatz_def affine_params_value [OF M] py_mod_def Let_def
      split: if_splits)

lemma legacy_params_total:
  assumes "1 < M"
  shows "\<exists>a b. affine_params_from_collatz k seed M = Inr (a, b)"
  using assms by (simp add: affine_params_from_collatz_def py_mod_def Let_def)

lemma legacy_params_pow2:
  assumes "0 < j" and "affine_params_from_collatz k seed (2 ^ j) = Inr (a, b)"
  shows "gcd a (2 ^ j) = 1"
proof -
  let ?n = "collatz_iter seed (k + 1)"
  have o: "odd ((?n OR 1) mod 2 ^ j)"
    using odd_forced_residue [OF assms(1)] .
  then have "(?n OR 1) mod 2 ^ j \<noteq> 0"
    by (metis even_zero)
  then have "a = (?n OR 1) mod 2 ^ j"
    using assms(2) by (auto simp: affine_params_from_collatz_def py_mod_def Let_def split: if_splits)
  with o have "coprime a (2 ^ j)"
    by (simp add: coprime_right_2_iff_odd)
  then show ?thesis
    by (simp add: coprime_iff_gcd_eq_1)
qed

section \<open>Results below the overflow threshold\<close>

text \<open>
  Rounding a non-negative ratio gives at most twice the ratio, so a product that stays
  well below \<open>2^1024\<close> is finite and the integer roundings of \<open>wait_micros\<close> succeed.
\<close>

lemma round_half_even_div_le_twice:
  assumes "0 \<le> p" and "0 < q"
  shows "q * round_half_even_div p q \<le> 2 * p"
proof -
  have d: "q * (p div q) + p mod q = p"
    by simp
  have m: "0 \<le> p mod q" "p mod q \<le> p"
    using assms by (simp_all add: zmod_le_nonneg_dividend)
  have q0: "0 \<le> q * (p div q)"
    using assms by (simp add: pos_imp_zdiv_nonneg_iff)
  show ?thesis
  proof (cases "2 * (p mod q) < q")
    case True
    then have "q * round_half_even_div p q = q * (p div q)"
      by (simp add: round_half_even_div_def)
    with d m assms(1) show ?thesis by linarith
  next
    case False
    then have "round_half_even_div p q \<le> p div q + 1"
      by (simp add: round_half_even_div_def)
    then have "q * round_half_even_div p q \<le> q * (p div q + 1)"
      using assms(2) by (simp add: mult_left_mono)
    also have "\<dots> = q * (p div q) + q"
      by (simp add: algebra_simps)
    also have "\<dots> \<le> 2 * p"
      using False d m by linarith
    finally show ?thesis .
  qed
qed

lemma canonical_value:
  "\<exists>m' e'. canonical m e = Finite m' e' \<and> float_value m' e' = float_value m e
            \<and> (0 \<le> m \<longrightarrow> 0 \<le> m')"
proof (induction m e rule: canonical.induct)
  case (1 m e)
  show ?case
  proof (cases "m = 0")
    case True
    then show ?thesis by (subst canonical.simps) (simp add: float_value_def)
  next
    case nz: False
    show ?thesis
    proof (cases "even m")
      case True
      from "1.IH" [OF nz True] obtain m' e' where
        c: "canonical (m div 2) (e + 1) = Finite m' e'"
        and v: "float_value m' e' = float_value (m div 2) (e + 1)"
        and s: "0 \<le> m div 2 \<longrightarrow> 0 \<le> m'"
        by blast
      have "m = 2 * (m div 2)"
        using True by simp
      then have "(of_int m :: rat) = 2 * of_int (m div 2)"
        by (metis of_int_mult of_int_numeral)
      then have "float_value (m div 2) (e + 1) = float_value m e"
        by (simp add: float_value_def power_int_add)
      moreover have "canonical m e = Finite m' e'"
        using nz True c by (subst canonical.simps) simp
      ultimately show ?thesis
        using v s by auto
    next
      case False
      with nz show ?thesis by (subst canonical.simps) simp
    qed
  qed
qed

lemma pack_finite:
  assumes "0 \<le> m" and "float_value m t < overflow_threshold"
  shows "\<exists>m' e'. pack m t = Finite m' e' \<and> float_value m' e' = float_value m t \<and> 0 \<le> m'"
proof -
  have a: "\<not> (0 \<le> t \<and> 2 ^ 1024 \<le> m * 2 ^ nat t)"
  proof
    assume "0 \<le> t \<and> 2 ^ 1024 \<le> m * 2 ^ nat t"
    then have that: "0 \<le> t" and "2 ^ 1024 \<le> m * 2 ^ nat t"
      by simp_all
    then have "(of_int (2 ^ 1024) :: rat) \<le> of_int (m * 2 ^ nat t)"
      by (simp only: of_int_le_iff)
    moreover have "(of_int (m * 2 ^ nat t) :: rat) = float_value m t"
      using that by (simp add: float_value_def power_int_def)
    ultimately show False
      using assms(2) by (simp add: overflow_threshold_def)
  qed
  have b: "\<not> (0 \<le> t \<and> m * 2 ^ nat t \<le> - (2 ^ 1024))"
  proof -
    have "0 \<le> m * 2 ^ nat t" using assms(1) by simp
    moreover have "- (2 ^ 1024) < (0::int)" by simp
    ultimately show ?thesis by linarith
  qed
  have "pack m t = canonical m t"
    unfolding pack_def by (simp only: a b if_False)
  then show ?thesis
    using canonical_value [of m t] assms(1) by auto
qed


lemma fl_ratio_finite:
  assumes p: "0 \<le> p" and q: "0 < q" and b: "2 * of_int p / of_int q < overflow_threshold"
  shows "\<exists>m e. fl_ratio p q = Finite m e \<and> 0 \<le> m
           \<and> float_value m e \<le> 2 * of_int p / of_int q"
proof (cases "p = 0")
  case True
  then show ?thesis
    by (simp add: fl_ratio_def float_value_def)
next
  case False
  define t where "t = max (ilog2_ratio \<bar>p\<bar> q) (- 1022) - 52"
  have f: "fl_ratio p q = round_at p q t"
    using False by (simp add: fl_ratio_def t_def)
  have qr: "(0::rat) < of_int q"
    using q by simp
  show ?thesis
  proof (cases "0 \<le> t")
    case True
    define r where "r = round_half_even_div p (q * 2 ^ nat t)"
    have r0: "0 \<le> r"
      unfolding r_def using p q by (intro round_half_even_div_nonneg) simp_all
    have "q * 2 ^ nat t * r \<le> 2 * p"
      unfolding r_def using p q by (intro round_half_even_div_le_twice) simp_all
    then have "(of_int (q * 2 ^ nat t * r) :: rat) \<le> of_int (2 * p)"
      by (simp only: of_int_le_iff)
    then have "of_int q * (of_int r * 2 ^ nat t) \<le> (2 * of_int p :: rat)"
      by (simp add: mult_ac)
    then have "of_int r * 2 ^ nat t \<le> (2 * of_int p / of_int q :: rat)"
      using qr by (simp add: pos_le_divide_eq mult.commute)
    then have v: "float_value r t \<le> 2 * of_int p / of_int q"
      using True by (simp add: float_value_def power_int_def)
    with b have "float_value r t < overflow_threshold"
      by simp
    from pack_finite [OF r0 this] obtain m e where
      "pack r t = Finite m e" "float_value m e = float_value r t" "0 \<le> m"
      by blast
    with v f True show ?thesis
      by (simp add: round_at_def r_def)
  next
    case False
    define r where "r = round_half_even_div (p * 2 ^ nat (- t)) q"
    have r0: "0 \<le> r"
      unfolding r_def using p q by (intro round_half_even_div_nonneg) simp_all
    have "q * r \<le> 2 * (p * 2 ^ nat (- t))"
      unfolding r_def using p q by (intro round_half_even_div_le_twice) simp_all
    then have "(of_int (q * r) :: rat) \<le> of_int (2 * (p * 2 ^ nat (- t)))"
      by (simp only: of_int_le_iff)
    then have "of_int q * of_int r \<le> (2 * of_int p * 2 ^ nat (- t) :: rat)"
      by (simp add: mult_ac)
    then have "of_int r \<le> (2 * of_int p * 2 ^ nat (- t) / of_int q :: rat)"
      using qr by (simp add: pos_le_divide_eq mult.commute)
    then have "of_int r / 2 ^ nat (- t) \<le> (2 * of_int p / of_int q :: rat)"
      by (simp add: pos_divide_le_eq mult_ac)
    moreover have "float_value r t = of_int r / 2 ^ nat (- t)"
      using False by (simp add: float_value_def power_int_def field_simps)
    ultimately have v: "float_value r t \<le> 2 * of_int p / of_int q"
      by simp
    with b have "float_value r t < overflow_threshold"
      by simp
    from pack_finite [OF r0 this] obtain m e where
      "pack r t = Finite m e" "float_value m e = float_value r t" "0 \<le> m"
      by blast
    with v f False show ?thesis
      by (simp add: round_at_def r_def)
  qed
qed

lemma round_dyadic_finite:
  assumes "0 \<le> m" and "2 * float_value m e < overflow_threshold"
  shows "\<exists>m' e'. round_dyadic m e = Finite m' e' \<and> 0 \<le> m'
           \<and> float_value m' e' \<le> 2 * float_value m e"
proof (cases "0 \<le> e")
  case True
  have eq: "2 * of_int (m * 2 ^ nat e) / of_int 1 = 2 * float_value m e"
    using True by (simp add: float_value_def power_int_def)
  have p: "0 \<le> m * 2 ^ nat e"
    using assms(1) by simp
  have "\<exists>m' e'. fl_ratio (m * 2 ^ nat e) 1 = Finite m' e' \<and> 0 \<le> m'
           \<and> float_value m' e' \<le> 2 * float_value m e"
    using fl_ratio_finite [of "m * 2 ^ nat e" 1, unfolded eq, OF p _ assms(2)] by simp
  with True show ?thesis
    by (simp add: round_dyadic_def)
next
  case False
  have eq: "2 * of_int m / of_int (2 ^ nat (- e)) = 2 * float_value m e"
    using False by (simp add: float_value_def power_int_def field_simps)
  have q: "0 < (2::int) ^ nat (- e)"
    by simp
  have "\<exists>m' e'. fl_ratio m (2 ^ nat (- e)) = Finite m' e' \<and> 0 \<le> m'
           \<and> float_value m' e' \<le> 2 * float_value m e"
    using fl_ratio_finite [of m "2 ^ nat (- e)", unfolded eq, OF assms(1) q assms(2)] .
  with False show ?thesis
    by (simp add: round_dyadic_def)
qed

lemma float_mul_finite:
  assumes "0 \<le> m1" and "0 \<le> m2"
    and "2 * (float_value m1 e1 * float_value m2 e2) < overflow_threshold"
  shows "\<exists>m e. float_mul (Finite m1 e1) (Finite m2 e2) = Finite m e \<and> 0 \<le> m
           \<and> float_value m e \<le> 2 * (float_value m1 e1 * float_value m2 e2)"
proof -
  have "float_value (m1 * m2) (e1 + e2) = float_value m1 e1 * float_value m2 e2"
    by (simp add: float_value_def power_int_add)
  then show ?thesis
    using round_dyadic_finite [of "m1 * m2" "e1 + e2"] assms
    by (simp add: float_mul_def)
qed

lemma int_to_float_finite:
  assumes "0 \<le> n" and "2 * of_int n < overflow_threshold"
  shows "\<exists>m e. int_to_float n = Inr (Finite m e) \<and> 0 \<le> m \<and> float_value m e \<le> 2 * of_int n"
proof -
  have eq: "2 * of_int n / of_int 1 = (2 * of_int n :: rat)"
    by simp
  obtain m e where "fl_ratio n 1 = Finite m e" "0 \<le> m" "float_value m e \<le> 2 * of_int n"
    using fl_ratio_finite [of n 1, unfolded eq, OF assms(1) _ assms(2)] by auto
  then show ?thesis
    by (simp add: int_to_float_def)
qed


lemma float_value_nonneg: "0 \<le> m \<Longrightarrow> 0 \<le> float_value m e"
  by (simp add: float_value_def)

lemma int_to_float_million: "int_to_float 1000000 = Inr (Finite 15625 6)"
  by code_simp

lemma float_value_million: "float_value 15625 6 = 1000000"
  by (simp add: float_value_def)

lemma pow2_below_threshold:
  assumes "0 \<le> k" and "k \<le> 1022"
  shows "2 * of_int (2 ^ nat k) < overflow_threshold"
proof -
  have "Suc (nat k) < 1024"
    using assms by simp
  then have "(2::rat) ^ Suc (nat k) < 2 ^ 1024"
    by (intro power_strict_increasing) simp_all
  then show ?thesis
    by (simp add: overflow_threshold_def del: power_numeral)
qed

lemma base_us_returns:
  assumes base: "base_seconds (cfg eng) = Finite mb eb" and mb: "0 \<le> mb"
    and k: "0 \<le> k" "k \<le> 1022"
    and bound: "8 * (float_value mb eb * 2 ^ nat k * 1000000) < overflow_threshold"
  shows "\<exists>b. base_us eng k = Inr b"
proof -
  let ?vb = "float_value mb eb"
  have vb: "0 \<le> ?vb"
    using mb by (rule float_value_nonneg)
  have pk: "(0::rat) < 2 ^ nat k"
    by simp
  obtain m1 e1 where x1: "int_to_float (2 ^ nat k) = Inr (Finite m1 e1)" and m1: "0 \<le> m1"
    and v1: "float_value m1 e1 \<le> 2 * of_int (2 ^ nat k)"
    using int_to_float_finite [OF _ pow2_below_threshold [OF k]] by auto
  have v1': "float_value m1 e1 \<le> 2 * 2 ^ nat k"
    using v1 by simp
  have b1: "?vb * float_value m1 e1 \<le> ?vb * (2 * 2 ^ nat k)"
    using v1' vb by (rule mult_left_mono)
  have "0 \<le> ?vb * 2 ^ nat k"
    using vb by simp
  then have big: "?vb * 2 ^ nat k \<le> ?vb * 2 ^ nat k * 1000000"
    by linarith
  have "2 * (?vb * float_value m1 e1) < overflow_threshold"
    using b1 big bound by linarith
  from float_mul_finite [OF mb m1 this] obtain m2 e2 where
    x2: "float_mul (Finite mb eb) (Finite m1 e1) = Finite m2 e2" and m2: "0 \<le> m2"
    and v2: "float_value m2 e2 \<le> 2 * (?vb * float_value m1 e1)"
    by blast
  have "float_value m2 e2 * 1000000 \<le> 4 * (?vb * 2 ^ nat k) * 1000000"
    using v2 b1 by (intro mult_right_mono) linarith+
  then have "2 * (float_value m2 e2 * float_value 15625 6) < overflow_threshold"
    using bound by (simp add: float_value_million)
  from float_mul_finite [OF m2 _ this] obtain m3 e3 where
    x3: "float_mul (Finite m2 e2) (Finite 15625 6) = Finite m3 e3"
    by auto
  have "pow_2 k = Inr (PyInt (2 ^ nat k))"
    using k(1) by (simp add: pow_2_def)
  then show ?thesis
    by (simp add: base_us_def base x1 x2 int_to_float_million x3)
qed

lemma cap_us_returns:
  assumes cap: "cap_seconds (cfg eng) = Finite mc ec" and mc: "0 \<le> mc"
    and bound: "2 * (float_value mc ec * 1000000) < overflow_threshold"
  shows "\<exists>c. cap_us eng = Inr c"
proof -
  have "2 * (float_value mc ec * float_value 15625 6) < overflow_threshold"
    using bound by (simp add: float_value_million)
  from float_mul_finite [OF mc _ this] obtain m e where
    "float_mul (Finite mc ec) (Finite 15625 6) = Finite m e"
    by auto
  then show ?thesis
    by (simp add: cap_us_def cap int_to_float_million)
qed

lemma finite_positive:
  assumes "\<not> float_le_int (Finite m e) 0"
  shows "0 \<le> m"
  using assms by (auto simp: mult_le_0_iff not_le split: if_splits)

lemma wait_micros_returns:
  assumes "CollatzBackoff c = Inr eng"
    and "base_seconds c = Finite mb eb" and "cap_seconds c = Finite mc ec"
    and "0 \<le> k" and "k \<le> 1022"
    and "float_value mb eb * 2 ^ nat k * 1000000 < 2 ^ 1021"
    and "float_value mc ec * 1000000 < 2 ^ 1023"
  shows "\<exists>w. wait_micros eng i k = Inr w"
proof -
  have M: "1 < slots_M (cfg eng)" and c: "cfg eng = c"
    using assms(1) by (rule CollatzBackoff_slots)+
  have v: "\<not> float_le_int (base_seconds c) 0" "\<not> float_le_int (cap_seconds c) 0"
    using assms(1) by (simp_all add: CollatzBackoff_Inr validate_Inr)
  have mb: "0 \<le> mb" and mc: "0 \<le> mc"
    using v assms(2,3) by (simp_all only: finite_positive)
  have "8 * (float_value mb eb * 2 ^ nat k * 1000000) < 8 * 2 ^ 1021"
    using assms(6) by linarith
  then have b: "8 * (float_value mb eb * 2 ^ nat k * 1000000) < overflow_threshold"
    by (simp add: overflow_threshold_def)
  have "2 * (float_value mc ec * 1000000) < 2 * 2 ^ 1023"
    using assms(7) by linarith
  then have cb: "2 * (float_value mc ec * 1000000) < overflow_threshold"
    by (simp add: overflow_threshold_def)
  obtain bu where bu: "base_us eng k = Inr bu"
    using base_us_returns [of eng mb eb k] assms(2,4,5) mb b c by auto
  obtain cu where cu: "cap_us eng = Inr cu"
    using cap_us_returns [of eng mc ec] assms(3) mc cb c by auto
  obtain s where s: "offset_slot eng i k = Inr s"
    using offset_slot_total [OF M] by blast
  show ?thesis
    using wait_micros_value [OF bu s cu] by simp
qed

lemma py_round_le_twice:
  assumes "py_round (Finite m e) = Inr v" and "0 \<le> m"
  shows "of_int v \<le> 2 * float_value m e"
proof (cases "0 \<le> e")
  case True
  then have "v = m * 2 ^ nat e"
    using assms(1) by simp
  then have "(of_int v :: rat) = float_value m e"
    using True by (simp add: float_value_def power_int_def)
  moreover have "0 \<le> float_value m e"
    using assms(2) by (rule float_value_nonneg)
  ultimately show ?thesis
    by simp
next
  case False
  then have v: "v = round_half_even_div m (2 ^ nat (- e))"
    using assms(1) by simp
  have "2 ^ nat (- e) * v \<le> 2 * m"
    unfolding v using assms(2) by (intro round_half_even_div_le_twice) simp_all
  then have "(of_int (2 ^ nat (- e) * v) :: rat) \<le> of_int (2 * m)"
    by (simp only: of_int_le_iff)
  then have "2 ^ nat (- e) * of_int v \<le> (2 * of_int m :: rat)"
    by simp
  then have "of_int v \<le> (2 * of_int m / 2 ^ nat (- e) :: rat)"
    by (simp add: pos_le_divide_eq mult.commute)
  moreover have "float_value m e = of_int m / 2 ^ nat (- e)"
    using False by (simp add: float_value_def power_int_def field_simps)
  ultimately show ?thesis
    by simp
qed

lemma cap_us_le:
  assumes cap: "cap_seconds (cfg eng) = Finite mc ec" and mc: "0 \<le> mc"
    and bound: "2 * (float_value mc ec * 1000000) < overflow_threshold"
    and cu: "cap_us eng = Inr cu"
  shows "of_int cu \<le> 4 * (float_value mc ec * 1000000)"
proof -
  have "2 * (float_value mc ec * float_value 15625 6) < overflow_threshold"
    using bound by (simp add: float_value_million)
  from float_mul_finite [OF mc _ this] obtain m e where
    z: "float_mul (Finite mc ec) (Finite 15625 6) = Finite m e" and m: "0 \<le> m"
    and v: "float_value m e \<le> 2 * (float_value mc ec * float_value 15625 6)"
    by auto
  have "py_round (Finite m e) = Inr cu"
    using cu by (simp add: cap_us_def cap int_to_float_million z)
  from py_round_le_twice [OF this m] v show ?thesis
    by (simp add: float_value_million)
qed

lemma truediv_million_finite:
  assumes "0 \<le> us" and "2 * of_int us < overflow_threshold"
  shows "\<exists>m e. int_truediv_float us (Finite 15625 6) = Inr (Finite m e) \<and> 0 \<le> m"
proof -
  obtain m1 e1 where x: "int_to_float us = Inr (Finite m1 e1)" and m1: "0 \<le> m1"
    and v: "float_value m1 e1 \<le> 2 * of_int us"
    using int_to_float_finite [OF assms] by blast
  let ?p = "m1 * 2 ^ nat (e1 - 6)"
  let ?q = "15625 * 2 ^ nat (6 - e1) :: int"
  have p: "0 \<le> ?p" and q: "0 < ?q"
    using m1 by simp_all
  have r: "(of_int ?p / of_int ?q :: rat) = float_value m1 e1 / 1000000"
  proof (cases "6 \<le> e1")
    case True
    then have "e1 = 6 + int (nat (e1 - 6))"
      by simp
    then have "(2::rat) powi e1 = 2 powi 6 * 2 ^ nat (e1 - 6)"
      by (metis power_int_add power_int_of_nat zero_neq_numeral)
    with True show ?thesis
      by (simp add: float_value_def)
  next
    case False
    then have "6 = e1 + int (nat (6 - e1))"
      by simp
    then have "(2::rat) powi 6 = 2 powi e1 * 2 ^ nat (6 - e1)"
      by (metis power_int_add power_int_of_nat zero_neq_numeral)
    then have "(64::rat) = 2 powi e1 * 2 ^ nat (6 - e1)"
      by simp
    moreover have "(2::rat) powi e1 \<noteq> 0"
      by simp
    ultimately have n: "(2::rat) ^ nat (6 - e1) = 64 / 2 powi e1"
      by (simp add: field_simps)
    have z: "nat (e1 - 6) = 0"
      using False by simp
    show ?thesis
      by (simp add: float_value_def z n)
  qed
  define R :: rat where "R = of_int ?p / of_int ?q"
  define V where "V = float_value m1 e1"
  have "0 \<le> V"
    unfolding V_def using m1 by (rule float_value_nonneg)
  moreover have "R = V / 1000000"
    unfolding R_def V_def by (rule r)
  ultimately have "2 * R \<le> V"
    by simp
  then have "2 * R < overflow_threshold"
    using v assms(2) V_def by linarith
  moreover have "2 * of_int ?p / of_int ?q = 2 * R"
    unfolding R_def by simp
  ultimately have "2 * of_int ?p / of_int ?q < overflow_threshold"
    by (simp only:)
  from fl_ratio_finite [OF p q this] obtain m e where
    "fl_ratio ?p ?q = Finite m e" "0 \<le> m"
    by blast
  then show ?thesis
    using x by (simp add: int_truediv_float_def float_div_def)
qed

lemma wait_micros_bounds:
  assumes "CollatzBackoff c = Inr eng" and w: "wait_micros eng i k = Inr w"
  shows "\<exists>cu. cap_us eng = Inr cu \<and> 0 \<le> w \<and> w \<le> cu"
proof -
  have M: "1 < slots_M (cfg eng)" and ms: "0 < slot_ms (cfg eng)"
    using assms(1) by (rule CollatzBackoff_slots)+
  have v: "\<not> float_le_int (base_seconds (cfg eng)) 0" "\<not> float_le_int (cap_seconds (cfg eng)) 0"
    using assms(1) by (simp_all add: CollatzBackoff_Inr validate_Inr)
  obtain s where s: "offset_slot eng i k = Inr s" "0 \<le> s"
    using offset_slot_total [OF M] by blast
  from w s(1) obtain b cu where b: "base_us eng k = Inr b" and cu: "cap_us eng = Inr cu"
    and weq: "w = min cu (b + s * slot_ms (cfg eng) * 1000)"
    by (auto simp: wait_micros_def split: sum.splits)
  have "0 \<le> b" "0 \<le> cu"
    using base_us_nonneg [OF v(1) b] cap_us_nonneg [OF v(2) cu] by simp_all
  moreover have "0 \<le> s * slot_ms (cfg eng) * 1000"
    using s(2) ms by simp
  ultimately show ?thesis
    using cu weq by simp
qed

lemma wait_seconds_finite:
  assumes "CollatzBackoff c = Inr eng"
    and cap: "cap_seconds c = Finite mc ec"
    and bound: "float_value mc ec * 1000000 < 2 ^ 1021"
    and w: "wait_micros eng i k = Inr us"
  shows "\<exists>m e. wait_seconds eng i k = Inr (Finite m e) \<and> 0 \<le> m"
proof -
  have c: "cfg eng = c"
    using assms(1) by (rule CollatzBackoff_slots)
  have "\<not> float_le_int (cap_seconds c) 0"
    using assms(1) by (simp add: CollatzBackoff_Inr validate_Inr)
  then have mc: "0 \<le> mc"
    using cap by (simp only: finite_positive)
  obtain cu where cu: "cap_us eng = Inr cu" and us: "0 \<le> us" "us \<le> cu"
    using wait_micros_bounds [OF assms(1) w] by blast
  define V where "V = float_value mc ec * 1000000"
  have V: "V < 2 ^ 1021"
    unfolding V_def by (rule bound)
  then have "2 * V < 2 * 2 ^ 1021"
    by linarith
  then have "2 * V < overflow_threshold"
    by (simp add: overflow_threshold_def)
  then have "of_int cu \<le> 4 * V"
    unfolding V_def using cap_us_le [of eng mc ec cu] cap mc cu c by simp
  moreover have "(of_int us :: rat) \<le> of_int cu"
    using us(2) by simp
  ultimately have "2 * of_int us < 8 * (2 ^ 1021 :: rat)"
    using V by linarith
  then have "2 * of_int us < overflow_threshold"
    by (simp add: overflow_threshold_def)
  from truediv_million_finite [OF us(1) this] show ?thesis
    by (simp add: wait_seconds_def w)
qed

section \<open>The default delays\<close>

text \<open>
  With \<open>base_seconds = 0.05\<close> the base delay is \<open>50000 * 2^k\<close> microseconds up to step 7,
  and with \<open>cap_seconds = 10.0\<close> the cap is 10000000 microseconds: with \<open>slot_ms = 1\<close> and
  at most 1024 slots the cap is out of reach up to step 7.
\<close>

lemma default_base_us:
  "map (base_us (Engine default_config)) [0, 1, 2, 3, 4, 5, 6, 7] =
   map Inr [50000, 100000, 200000, 400000, 800000, 1600000, 3200000, 6400000]"
  by code_simp

lemma default_cap_us: "cap_us (Engine default_config) = Inr 10000000"
  by code_simp

lemma default_steps_below_cap:
  assumes "base_seconds c = base_seconds default_config"
    and "cap_seconds c = cap_seconds default_config"
    and "slot_ms c = 1" and "slots_M c \<le> 1024" and "0 \<le> k" and "k \<le> 7"
  shows "\<exists>b cu. base_us (Engine c) k = Inr b \<and> cap_us (Engine c) = Inr cu
           \<and> b + (slots_M c - 1) * slot_ms c * 1000 \<le> cu"
proof -
  have b: "base_us (Engine c) k = base_us (Engine default_config) k"
    unfolding base_us_def by (simp only: engine.sel assms(1))
  have "cap_us (Engine c) = cap_us (Engine default_config)"
    unfolding cap_us_def by (simp only: engine.sel assms(2))
  then have cu: "cap_us (Engine c) = Inr 10000000"
    by (simp only: default_cap_us)
  have "k \<in> {0, 1, 2, 3, 4, 5, 6, 7}"
    using assms(5,6) by auto
  then have "\<exists>b. base_us (Engine default_config) k = Inr b \<and> b \<le> 6400000"
    using default_base_us by auto
  then obtain bu where bu: "base_us (Engine c) k = Inr bu" "bu \<le> 6400000"
    using b by auto
  have "bu + (slots_M c - 1) * slot_ms c * 1000 \<le> 10000000"
    using bu(2) assms(3,4) by simp
  with bu(1) cu show ?thesis
    by simp
qed

text \<open>
  Where the cap is out of reach, \<open>base_us(k) + (slots_M - 1) * slot_ms * 1000 \<le> cap_us\<close>,
  the waits of the ids \<open>0..n-1\<close> with \<open>n \<le> slots_M\<close> are pairwise distinct.
\<close>

lemma wait_micros_inj_below_cap:
  assumes "CollatzBackoff c = Inr eng" and "0 \<le> k" and "1 \<le> n" and "n \<le> slots_M c"
    and "base_us eng k = Inr b" and "cap_us eng = Inr cu"
    and "b + (slots_M c - 1) * slot_ms c * 1000 \<le> cu"
  shows "(\<forall>i \<in> {0..<n}. \<exists>w. wait_micros eng i k = Inr w)
         \<and> inj_on (\<lambda>i. wait_micros eng i k) {0..<n}"
proof -
  have M: "1 < slots_M (cfg eng)" and ms: "0 < slot_ms (cfg eng)" and c: "cfg eng = c"
    using assms(1) by (rule CollatzBackoff_slots)+
  have n: "n \<le> slots_M (cfg eng)"
    using assms(4) c by simp
  have w: "\<exists>s. offset_slot eng i k = Inr s
              \<and> wait_micros eng i k = Inr (b + s * slot_ms c * 1000)" for i
  proof -
    obtain s where s: "offset_slot eng i k = Inr s" "0 \<le> s" "s < slots_M (cfg eng)"
      using offset_slot_total [OF M] by blast
    have "s * slot_ms c \<le> (slots_M c - 1) * slot_ms c"
      using s(3) ms c by (intro mult_right_mono) simp_all
    then have "s * slot_ms c * 1000 \<le> (slots_M c - 1) * slot_ms c * 1000"
      by simp
    then have "b + s * slot_ms c * 1000 \<le> cu"
      using assms(7) by linarith
    then show ?thesis
      using wait_micros_value [OF assms(5) s(1) assms(6)] s(1) c by simp
  qed
  have "inj_on (\<lambda>i. wait_micros eng i k) {0..<n}"
  proof (rule inj_onI)
    fix i j
    assume i: "i \<in> {0..<n}" and j: "j \<in> {0..<n}"
      and eq: "wait_micros eng i k = wait_micros eng j k"
    obtain s t where s: "offset_slot eng i k = Inr s" "wait_micros eng i k = Inr (b + s * slot_ms c * 1000)"
      and t: "offset_slot eng j k = Inr t" "wait_micros eng j k = Inr (b + t * slot_ms c * 1000)"
      using w [of i] w [of j] by blast
    from eq s(2) t(2) have "s * slot_ms c = t * slot_ms c"
      by simp
    then have "s = t"
      using ms c by simp
    then have "offset_slot eng i k = offset_slot eng j k"
      using s(1) t(1) by simp
    then show "i = j"
      using offset_slot_inj [OF M n, of i j k] i j by simp
  qed
  moreover have "\<exists>w. wait_micros eng i k = Inr w" for i
    using w [of i] by blast
  ultimately show ?thesis
    by simp
qed

section \<open>Large steps\<close>

text \<open>
  With the default configuration the product \<open>base_seconds * 2^k * 1_000_000\<close> is finite
  up to step 1008 and infinite from step 1009 on, where \<open>round\<close> raises; the module-level
  function compares the float with the cap and returns the cap there.
\<close>

lemma large_step_values:
  "wait_micros (Engine default_config) 0 1008 = Inr 10000000
   \<and> wait_micros (Engine default_config) 0 1009 = Inl OverflowError
   \<and> legacy_collatz_seeded_backoff_seconds 0 1009 default_config = Inr (Finite 5 1)"
  by code_simp

section \<open>The claims\<close>

text \<open>
  C5. \<open>collatz_iter(seed, k)\<close> applies \<open>collatz_step\<close> exactly k times starting from the
  seed, \<open>collatz_iter(seed, 0)\<close> is the seed, \<open>collatz_step(n)\<close> is \<open>n/2\<close> for an even n
  and \<open>(3n+1)/2\<close> for an odd n with integer division, and \<open>collatz_iter(0, k) = 0\<close> for
  every k: seed 0 is an ordinary input with a fixed sequence, not an error.
\<close>

theorem collatz_iter_applies_step_k_times:
  "collatz_iter seed (int k) = (collatz_step ^^ k) seed
   \<and> collatz_iter seed 0 = seed
   \<and> collatz_step n = (if even n then n div 2 else (3 * n + 1) div 2)
   \<and> collatz_iter 0 (int k) = 0"
proof -
  have "collatz_iter seed (int k) = (collatz_step ^^ k) seed"
    by (simp add: collatz_iter_def collatz_loop_funpow)
  moreover have "collatz_iter seed 0 = seed"
    by (simp add: collatz_iter_def)
  moreover have "collatz_step n = (if even n then n div 2 else (3 * n + 1) div 2)"
    by (simp add: collatz_step_spec spec_step_def)
  moreover have "collatz_iter 0 (int k) = 0"
    by (simp add: collatz_iter_def collatz_loop_zero)
  ultimately show ?thesis by blast
qed

text \<open>
  C1. For a valid configuration, a retry step \<open>k \<ge> 0\<close> and \<open>1 \<le> n \<le> slots_M\<close>, every
  id in \<open>{0, ..., n-1}\<close> gets a slot and the map from id to slot is injective on that set:
  the n slots are pairwise distinct.
\<close>

theorem offset_slot_injective_within_capacity:
  assumes "CollatzBackoff c = Inr eng" and "0 \<le> k" and "1 \<le> n" and "n \<le> slots_M c"
  shows "(\<forall>i \<in> {0..<n}. \<exists>s. offset_slot eng i k = Inr s)
         \<and> inj_on (\<lambda>i. offset_slot eng i k) {0..<n}"
proof -
  have M: "1 < slots_M (cfg eng)" and c: "cfg eng = c"
    using assms(1) by (rule CollatzBackoff_slots)+
  have n: "n \<le> slots_M (cfg eng)"
    using assms(4) c by simp
  have "inj_on (\<lambda>i. offset_slot eng i k) {0..<n}"
    by (rule inj_onI) (use offset_slot_inj [OF M n] in auto)
  moreover have "\<exists>s. offset_slot eng i k = Inr s" for i
    using offset_slot_total [OF M, of i k] by blast
  ultimately show ?thesis
    by simp
qed

theorem offset_slot_injective_within_capacity_witness:
  "CollatzBackoff config_M8 = Inr (Engine config_M8)
   \<and> (0::int) \<le> 2 \<and> (1::int) \<le> 8 \<and> 8 \<le> slots_M config_M8
   \<and> inj_on (\<lambda>i. offset_slot (Engine config_M8) i 2) {0..<8}"
proof -
  have h: "CollatzBackoff config_M8 = Inr (Engine config_M8)"
    by (simp add: CollatzBackoff_def validate_def config_M8_def default_config_def)
  have m: "8 \<le> slots_M config_M8"
    by (simp add: config_M8_def)
  from offset_slot_injective_within_capacity [OF h, of 2 8] m h show ?thesis
    by simp
qed

text \<open>
  C2. For a valid configuration (any \<open>slots_M > 1\<close>, a power of two or not, and any seed)
  and \<open>k \<ge> 0\<close>, \<open>affine_params(k)\<close> returns a pair \<open>(a, b)\<close> with \<open>1 \<le> a < slots_M\<close>,
  \<open>0 \<le> b < slots_M\<close> and \<open>gcd(a, slots_M) = 1\<close>; when the odd-forced residue
  \<open>(n | 1) mod slots_M\<close> is not coprime to \<open>slots_M\<close>, the multiplier is exactly 1.
\<close>

theorem affine_params_invertible:
  assumes "CollatzBackoff c = Inr eng" and "0 \<le> k"
  shows "\<exists>a b. affine_params eng k = Inr (a, b)
           \<and> 1 \<le> a \<and> a < slots_M c \<and> 0 \<le> b \<and> b < slots_M c \<and> gcd a (slots_M c) = 1
           \<and> (gcd ((collatz_iter (collatz_seed c) (k + 1) OR 1) mod slots_M c) (slots_M c) \<noteq> 1
                \<longrightarrow> a = 1)"
proof -
  let ?M = "slots_M (cfg eng)"
  have M: "1 < ?M" and c: "cfg eng = c"
    using assms(1) by (rule CollatzBackoff_slots)+
  obtain a b where ab: "affine_params eng k = Inr (a, b)"
    using affine_params_total [OF M] by blast
  note r = affine_params_range [OF M ab]
  have "gcd ((collatz_iter (collatz_seed c) (k + 1) OR 1) mod slots_M c) (slots_M c) \<noteq> 1
        \<longrightarrow> a = 1"
    using ab M by (auto simp: affine_params_value [OF M] c Let_def split: if_splits)
  with ab r show ?thesis
    by (simp add: c)
qed

theorem affine_params_invertible_witness:
  "CollatzBackoff config_M6 = Inr (Engine config_M6) \<and> affine_params (Engine config_M6) 0 = Inr (1, 0)
   \<and> gcd ((collatz_iter 6 1 OR 1) mod 6) 6 = (3::int)"
proof -
  have h: "CollatzBackoff config_M6 = Inr (Engine config_M6)"
    by (simp add: CollatzBackoff_def validate_def config_M6_def default_config_def)
  have n: "collatz_iter 6 1 = 3"
    by (simp add: collatz_iter_def collatz_step_def)
  have o: "(3::int) OR 1 = 3"
    by simp
  from affine_params_invertible [OF h, of 0] n o h show ?thesis
    by (auto simp: config_M6_def default_config_def affine_params_def py_mod_def)
qed

text \<open>
  C4. \<open>affine_params(k)\<close> equals the reference definition of the specification:
  \<open>n = iterate(collatz_seed, k + 1)\<close> (one more iteration than k), \<open>a = (n | 1) mod M\<close>
  replaced by 1 if that residue is 0 and by 1 again if it is not coprime to M, and
  \<open>b = (n >> 3) mod M\<close>.
\<close>

theorem affine_params_refines_spec:
  assumes "CollatzBackoff c = Inr eng"
  shows "affine_params eng (int k) = Inr (spec_params (slots_M c) (collatz_seed c) k)"
proof -
  have M: "1 < slots_M (cfg eng)" and c: "cfg eng = c"
    using assms by (rule CollatzBackoff_slots)+
  have step: "collatz_step = spec_step"
    by (rule ext) (rule collatz_step_spec)
  have "collatz_iter (collatz_seed c) (int k + 1) = spec_iterate (collatz_seed c) (k + 1)"
    by (simp add: collatz_iter_def spec_iterate_def collatz_loop_funpow step nat_add_distrib
        del: funpow.simps)
  then show ?thesis
    by (simp add: affine_params_value [OF M] c spec_params_def Let_def drop_bit_eq_div)
qed

theorem affine_params_refines_spec_witness:
  "CollatzBackoff config_M8 = Inr (Engine config_M8)
   \<and> affine_params (Engine config_M8) (int 0) = Inr (spec_params 8 27 0)"
proof -
  have h: "CollatzBackoff config_M8 = Inr (Engine config_M8)"
    by (simp add: CollatzBackoff_def validate_def config_M8_def default_config_def)
  from affine_params_refines_spec [OF h, of 0] h show ?thesis
    by (simp add: config_M8_def default_config_def)
qed

text \<open>
  C6. Constructing the engine from a configuration fails, with the error of
  \<open>validate\<close>, if and only if at least one bound is violated: \<open>base_seconds \<le> 0\<close>,
  \<open>slot_ms \<le> 0\<close>, \<open>slots_M \<le> 1\<close> or \<open>cap_seconds \<le> 0\<close>. With all four bounds
  satisfied it succeeds and wraps the configuration; the seed is not constrained.
\<close>

theorem construction_fails_iff_bound_violated:
  "((\<exists>e. CollatzBackoff c = Inl e) \<longleftrightarrow>
      float_le_int (base_seconds c) 0 \<or> slot_ms c \<le> 0 \<or> slots_M c \<le> 1
        \<or> float_le_int (cap_seconds c) 0)
   \<and> ((\<exists>e. CollatzBackoff c = Inl e) \<longleftrightarrow> CollatzBackoff c = Inl ValueError)
   \<and> ((\<nexists>e. CollatzBackoff c = Inl e) \<longleftrightarrow> CollatzBackoff c = Inr (Engine c))
   \<and> validate (c\<lparr>collatz_seed := s\<rparr>) = validate c"
  by (simp add: CollatzBackoff_def validate_def)

text \<open>
  C10. The slot depends on the id only through its residue modulo \<open>slots_M\<close>: for a valid
  configuration, \<open>k \<ge> 0\<close> and two ids congruent modulo \<open>slots_M\<close> the slots are equal; in
  particular \<open>offset_slot(id + slots_M, k) = offset_slot(id, k)\<close>.
\<close>

theorem offset_slot_depends_on_residue:
  assumes "CollatzBackoff c = Inr eng" and "0 \<le> k"
    and "id1 mod slots_M c = id2 mod slots_M c"
  shows "offset_slot eng id1 k = offset_slot eng id2 k
         \<and> offset_slot eng (id1 + slots_M c) k = offset_slot eng id1 k"
proof -
  let ?M = "slots_M (cfg eng)"
  have M: "1 < ?M" and c: "cfg eng = c"
    using assms(1) by (rule CollatzBackoff_slots)+
  obtain a b where ab: "affine_params eng k = Inr (a, b)"
    using affine_params_total [OF M] by blast
  have slot: "offset_slot eng i k = Inr ((a * i + b) mod ?M)" for i
    using offset_slot_value [OF M ab] .
  have res: "(a * i + b) mod ?M = (a * (i mod ?M) + b) mod ?M" for i
    by (metis mod_add_left_eq mod_mult_right_eq)
  have "(a * id1 + b) mod ?M = (a * id2 + b) mod ?M"
    using assms(3) res [of id1] res [of id2] by (simp add: c)
  moreover have "(a * (id1 + ?M) + b) mod ?M = (a * id1 + b) mod ?M"
    using res [of "id1 + ?M"] res [of id1] by simp
  ultimately show ?thesis
    by (simp add: slot c [symmetric])
qed

theorem offset_slot_depends_on_residue_witness:
  "CollatzBackoff config_M8 = Inr (Engine config_M8) \<and> (3::int) mod 8 = 19 mod 8
   \<and> offset_slot (Engine config_M8) 3 2 = offset_slot (Engine config_M8) 19 2
   \<and> offset_slot (Engine config_M8) 11 2 = offset_slot (Engine config_M8) 3 2"
proof -
  have h: "CollatzBackoff config_M8 = Inr (Engine config_M8)"
    by (simp add: CollatzBackoff_def validate_def config_M8_def default_config_def)
  have m: "slots_M config_M8 = 8"
    by (simp add: config_M8_def)
  from offset_slot_depends_on_residue [OF h, of 2 3 19] h m show ?thesis
    by simp
qed

text \<open>
  C3. The claim, which the repository's test of the waits asserts: for a fixed
  \<open>(slots_M, collatz_seed)\<close>, \<open>base_seconds = 0.05\<close>, \<open>slot_ms \<ge> 1\<close>, \<open>cap_seconds = 10.0\<close>,
  ids \<open>0..n-1\<close> with \<open>n \<le> slots_M\<close> and every step k in \<open>[0, 12)\<close>, the values
  \<open>wait_micros(i, k)\<close> are pairwise distinct. The code does not do this. With the test's
  parameters \<open>slots_M = 32\<close>, seed 27, \<open>slot_ms = 1\<close> and step 8 the base delay is 12.8 s,
  above the cap: the ids 0 and 1 have different slots and the same wait, the cap of
  10000000 microseconds.
\<close>

theorem wait_micros_collide_at_cap:
  "CollatzBackoff config_M32 = Inr (Engine config_M32)
   \<and> wait_micros (Engine config_M32) 0 8 = Inr 10000000
   \<and> wait_micros (Engine config_M32) 1 8 = Inr 10000000
   \<and> offset_slot (Engine config_M32) 0 8 \<noteq> offset_slot (Engine config_M32) 1 8"
  by code_simp

text \<open>
  C7, as stated, fails: negative ids and steps are accepted. With the default
  configuration \<open>offset_slot(-1, 0)\<close>, \<open>offset_slot(0, -1)\<close>, \<open>wait_micros(-1, 0)\<close>,
  \<open>wait_micros(0, -1)\<close> and \<open>wait_micros(-1, -1)\<close> return a value and raise nothing.
\<close>

theorem negative_arguments_are_accepted:
  "CollatzBackoff default_config = Inr (Engine default_config)
   \<and> offset_slot (Engine default_config) (- 1) 0 = Inr 988
   \<and> offset_slot (Engine default_config) 0 (- 1) = Inr 3
   \<and> wait_micros (Engine default_config) (- 1) 0 = Inr 1038000
   \<and> wait_micros (Engine default_config) 0 (- 1) = Inr 28000
   \<and> wait_micros (Engine default_config) (- 1) (- 1) = Inr 1025000"
  by code_simp

text \<open>
  C7, amended. For a validly constructed engine and any integers id and k, negative ones
  included, \<open>offset_slot(id, k)\<close> never fails and returns a slot in \<open>[0, slots_M)\<close>.
  \<open>wait_micros\<close> rejects no id: where it returns for one id it returns for every id,
  negative ones included. Whenever \<open>wait_micros(id, k)\<close> returns, for any integers id and
  k, the result is an integer with \<open>0 \<le> result \<le> cap_us\<close>, where
  \<open>cap_us = round(cap_seconds * 1_000_000)\<close>. And it does return, for every id, for
  \<open>0 \<le> k \<le> 1022\<close> when \<open>base_seconds\<close> and \<open>cap_seconds\<close> are finite with
  \<open>base_seconds * 2^k * 10^6 < 2^1021\<close> and \<open>cap_seconds * 10^6 < 2^1023\<close>.
\<close>

theorem schedule_accepts_all_integers:
  assumes "CollatzBackoff c = Inr eng"
  shows "(\<exists>s. offset_slot eng i k = Inr s \<and> 0 \<le> s \<and> s < slots_M c)
         \<and> ((\<exists>w. wait_micros eng i k = Inr w) \<longleftrightarrow> (\<exists>w. wait_micros eng j k = Inr w))
         \<and> (\<forall>w. wait_micros eng i k = Inr w \<longrightarrow>
              (\<exists>cu. cap_us eng = Inr cu \<and> 0 \<le> w \<and> w \<le> cu))
         \<and> (\<forall>mb eb mc ec.
              base_seconds c = Finite mb eb \<and> cap_seconds c = Finite mc ec
              \<and> 0 \<le> k \<and> k \<le> 1022
              \<and> float_value mb eb * 2 ^ nat k * 1000000 < 2 ^ 1021
              \<and> float_value mc ec * 1000000 < 2 ^ 1023
              \<longrightarrow> (\<exists>w. wait_micros eng i k = Inr w))"
proof -
  have M: "1 < slots_M (cfg eng)" and ms: "0 < slot_ms (cfg eng)" and c: "cfg eng = c"
    using assms(1) by (rule CollatzBackoff_slots)+
  obtain s where s: "offset_slot eng i k = Inr s" "0 \<le> s" "s < slots_M (cfg eng)"
    using offset_slot_total [OF M] by blast
  have bounds: "\<exists>cu. cap_us eng = Inr cu \<and> 0 \<le> w \<and> w \<le> cu"
    if w: "wait_micros eng i k = Inr w" for w
    using wait_micros_bounds [OF assms w] .
  have returns: "\<exists>w. wait_micros eng i k = Inr w"
    if "base_seconds c = Finite mb eb \<and> cap_seconds c = Finite mc ec
        \<and> 0 \<le> k \<and> k \<le> 1022
        \<and> float_value mb eb * 2 ^ nat k * 1000000 < 2 ^ 1021
        \<and> float_value mc ec * 1000000 < 2 ^ 1023" for mb eb mc ec
    using wait_micros_returns [OF assms, of mb eb mc ec k i] that by blast
  have slot: "\<exists>s. offset_slot eng i k = Inr s \<and> 0 \<le> s \<and> s < slots_M c"
    using s c by auto
  have "(\<exists>e. wait_micros eng i k = Inl e) \<longleftrightarrow> (\<exists>e. wait_micros eng j k = Inl e)"
    using wait_micros_fails_iff [OF M, of i k] wait_micros_fails_iff [OF M, of j k] by simp
  then have any_id: "(\<exists>w. wait_micros eng i k = Inr w) \<longleftrightarrow> (\<exists>w. wait_micros eng j k = Inr w)"
    by (cases "wait_micros eng i k"; cases "wait_micros eng j k") auto
  from slot any_id bounds returns show ?thesis
    by blast
qed

theorem schedule_accepts_all_integers_witness:
  "CollatzBackoff default_config = Inr (Engine default_config)
   \<and> offset_slot (Engine default_config) (- 1) (- 1) = Inr 1000
   \<and> wait_micros (Engine default_config) (- 1) (- 1) = Inr 1025000
   \<and> (\<exists>w. wait_micros (Engine default_config) 5 (- 1) = Inr w)
   \<and> cap_us (Engine default_config) = Inr 10000000
   \<and> base_seconds default_config = Finite 3602879701896397 (- 56)
   \<and> cap_seconds default_config = Finite 5 1
   \<and> float_value 3602879701896397 (- 56) * 2 ^ nat 3 * 1000000 < 2 ^ 1021
   \<and> float_value 5 1 * 1000000 < 2 ^ 1023
   \<and> (\<exists>w. wait_micros (Engine default_config) 7 3 = Inr w)"
proof -
  have h: "CollatzBackoff default_config = Inr (Engine default_config)"
    by code_simp
  have o: "offset_slot (Engine default_config) (- 1) (- 1) = Inr 1000"
    by code_simp
  have w: "wait_micros (Engine default_config) (- 1) (- 1) = Inr 1025000"
    by code_simp
  have cu: "cap_us (Engine default_config) = Inr 10000000"
    by code_simp
  have f: "base_seconds default_config = Finite 3602879701896397 (- 56)"
    "cap_seconds default_config = Finite 5 1"
    by (simp_all add: default_config_def)
  have b: "float_value 3602879701896397 (- 56) * 2 ^ nat 3 * 1000000 < 2 ^ 1021"
    "float_value 5 1 * 1000000 < 2 ^ 1023"
    by (simp_all add: float_value_def power_int_minus)
  have "\<exists>w. wait_micros (Engine default_config) 7 3 = Inr w"
    using schedule_accepts_all_integers [OF h, of 7 3] f b by simp
  moreover have "\<exists>w. wait_micros (Engine default_config) 5 (- 1) = Inr w"
    using schedule_accepts_all_integers [OF h, of "- 1" "- 1" 5] w by simp
  ultimately show ?thesis
    using h o w cu f b by simp
qed

text \<open>
  C8. For a valid configuration and non-negative id and k, \<open>wait_seconds(id, k)\<close> is
  \<open>wait_micros(id, k)\<close> divided by \<open>1_000_000.0\<close>, one division of the integer result and
  nothing else (an error of \<open>wait_micros\<close> is passed on), and the function
  \<open>collatz_seeded_backoff_seconds\<close> of core.py returns the same. With a finite cap below
  \<open>2^1021\<close> microseconds the division cannot fail: whenever \<open>wait_micros\<close> returns,
  \<open>wait_seconds\<close> returns a finite non-negative float.
\<close>

theorem wait_seconds_divides_wait_micros:
  assumes "CollatzBackoff c = Inr eng" and "0 \<le> i" and "0 \<le> k"
  shows "wait_seconds eng i k =
           (case wait_micros eng i k of
              Inl e \<Rightarrow> Inl e
            | Inr us \<Rightarrow> int_truediv_float us (Finite 15625 6))
         \<and> collatz_seeded_backoff_seconds i k c = wait_seconds eng i k
         \<and> (\<forall>mc ec us.
              cap_seconds c = Finite mc ec \<and> float_value mc ec * 1000000 < 2 ^ 1021
              \<and> wait_micros eng i k = Inr us
              \<longrightarrow> (\<exists>m e. wait_seconds eng i k = Inr (Finite m e) \<and> 0 \<le> m))"
proof -
  have "wait_seconds eng i k =
      (case wait_micros eng i k of
         Inl e \<Rightarrow> Inl e
       | Inr us \<Rightarrow> int_truediv_float us (Finite 15625 6))"
    by (simp add: wait_seconds_def)
  moreover have "collatz_seeded_backoff_seconds i k c = wait_seconds eng i k"
    using assms(1) by (simp add: collatz_seeded_backoff_seconds_def)
  moreover have "\<exists>m e. wait_seconds eng i k = Inr (Finite m e) \<and> 0 \<le> m"
    if "cap_seconds c = Finite mc ec \<and> float_value mc ec * 1000000 < 2 ^ 1021
        \<and> wait_micros eng i k = Inr us" for mc ec us
    using wait_seconds_finite [OF assms(1), of mc ec i k us] that by blast
  ultimately show ?thesis
    by blast
qed

theorem wait_seconds_divides_wait_micros_witness:
  "CollatzBackoff default_config = Inr (Engine default_config)
   \<and> wait_micros (Engine default_config) 7 0 = Inr 342000
   \<and> int_truediv_float 342000 (Finite 15625 6) = Inr (Finite 6160924290242839 (- 54))
   \<and> cap_seconds default_config = Finite 5 1
   \<and> float_value 5 1 * 1000000 < 2 ^ 1021
   \<and> wait_seconds (Engine default_config) 7 0 = Inr (Finite 6160924290242839 (- 54))
   \<and> collatz_seeded_backoff_seconds 7 0 default_config = Inr (Finite 6160924290242839 (- 54))"
proof -
  have h: "CollatzBackoff default_config = Inr (Engine default_config)"
    by code_simp
  have w: "wait_micros (Engine default_config) 7 0 = Inr 342000"
    by code_simp
  have d: "int_truediv_float 342000 (Finite 15625 6) = Inr (Finite 6160924290242839 (- 54))"
    by code_simp
  have f: "cap_seconds default_config = Finite 5 1"
    by (simp add: default_config_def)
  have b: "float_value 5 1 * 1000000 < 2 ^ 1021"
    by (simp add: float_value_def)
  from wait_seconds_divides_wait_micros [OF h, of 7 0] h w d f b show ?thesis
    by simp
qed

text \<open>
  C9, as stated, fails. With \<open>slots_M = 6\<close> and seed 6 the odd-forced multiplier is 3:
  the module-level \<open>collatz_perm_offset\<close> keeps it and sends id 1 to slot 3, where
  \<open>offset_slot\<close> falls back to the multiplier 1 and gives slot 1. With the default
  configuration, id 7 and step 0, the module-level seconds are \<open>0.34199999999999997\<close> and
  those of core.py are \<open>0.342\<close>.
\<close>

theorem implementations_differ:
  "CollatzBackoff config_M6 = Inr (Engine config_M6)
   \<and> collatz_perm_offset 1 0 (slots_M config_M6) (collatz_seed config_M6) = Inr 3
   \<and> offset_slot (Engine config_M6) 1 0 = Inr 1
   \<and> CollatzBackoff default_config = Inr (Engine default_config)
   \<and> legacy_collatz_seeded_backoff_seconds 7 0 default_config
         = Inr (Finite 3080462145121419 (- 53))
   \<and> collatz_seeded_backoff_seconds 7 0 default_config
         = Inr (Finite 6160924290242839 (- 54))"
  by code_simp

text \<open>
  C9, amended. For a valid configuration and all integers id and k, the module-level
  \<open>collatz_perm_offset\<close> returns the same slot as \<open>offset_slot\<close> whenever the multiplier
  of \<open>affine_params_from_collatz\<close> is coprime to \<open>slots_M\<close> (the two parameter pairs are
  then equal), in particular for every \<open>slots_M\<close> that is a power of two.
\<close>

theorem legacy_offset_agrees_when_invertible:
  assumes "CollatzBackoff c = Inr eng"
  shows "(\<exists>a b. affine_params_from_collatz k (collatz_seed c) (slots_M c) = Inr (a, b)
            \<and> (gcd a (slots_M c) = 1 \<longrightarrow>
                 affine_params eng k = Inr (a, b)
                 \<and> collatz_perm_offset i k (slots_M c) (collatz_seed c) = offset_slot eng i k))
         \<and> ((\<exists>j. slots_M c = 2 ^ j) \<longrightarrow>
                 collatz_perm_offset i k (slots_M c) (collatz_seed c) = offset_slot eng i k)"
proof -
  have M: "1 < slots_M (cfg eng)" and c: "cfg eng = c"
    using assms(1) by (rule CollatzBackoff_slots)+
  obtain a b where ab: "affine_params_from_collatz k (collatz_seed c) (slots_M c) = Inr (a, b)"
    using legacy_params_total [of "slots_M c" k "collatz_seed c"] M c by auto
  have agree: "affine_params eng k = Inr (a, b)
      \<and> collatz_perm_offset i k (slots_M c) (collatz_seed c) = offset_slot eng i k"
    if g: "gcd a (slots_M c) = 1"
  proof -
    have p: "affine_params eng k = Inr (a, b)"
      using legacy_params_agree [OF M, of k a b] ab g c by simp
    then show ?thesis
      using ab c by (simp add: collatz_perm_offset_def offset_slot_def)
  qed
  have "collatz_perm_offset i k (slots_M c) (collatz_seed c) = offset_slot eng i k"
    if "\<exists>j. slots_M c = 2 ^ j"
  proof -
    from that obtain j where j: "slots_M c = 2 ^ j" by blast
    with M c have "0 < j"
      by (cases j) simp_all
    then have "gcd a (slots_M c) = 1"
      using legacy_params_pow2 [of j k "collatz_seed c" a b] ab j by simp
    then show ?thesis
      using agree by simp
  qed
  with ab agree show ?thesis
    by blast
qed

theorem legacy_offset_agrees_when_invertible_witness:
  "CollatzBackoff config_M32 = Inr (Engine config_M32)
   \<and> slots_M config_M32 = 2 ^ 5
   \<and> collatz_perm_offset 5 3 (slots_M config_M32) (collatz_seed config_M32)
       = offset_slot (Engine config_M32) 5 3
   \<and> affine_params_from_collatz 3 (collatz_seed config_M32) (slots_M config_M32) = Inr (15, 5)
   \<and> gcd 15 (slots_M config_M32) = 1
   \<and> affine_params (Engine config_M32) 3 = Inr (15, 5)"
proof -
  have h: "CollatzBackoff config_M32 = Inr (Engine config_M32)"
    by code_simp
  have m: "slots_M config_M32 = 2 ^ 5"
    by (simp add: config_M32_def)
  have l: "affine_params_from_collatz 3 (collatz_seed config_M32) (slots_M config_M32) = Inr (15, 5)"
    by code_simp
  have g: "gcd 15 (slots_M config_M32) = 1"
    by code_simp
  from legacy_offset_agrees_when_invertible [OF h, of 3 5] h m l g show ?thesis
    by auto
qed

end
